theory Spec2Isabelle
  imports
    Main
    "HOL-Library.Word"
    "HOL-Library.Log_Nat"
    "HOL-Library.Char_ord"
    "HOL-Library.List_Lexorder"
begin

unbundle bit_operations_syntax

section \<open>JavaScript numbers used by \<open>generateUuidV7\<close>\<close>

text \<open>
  \<open>Date.now()\<close> is a non-negative integer-valued double and \<open>2 ** k\<close> is an exact power of
  two, so the only floating-point operation of \<open>server.ts\<close> is the division of one
  positive integer by another. \<open>js_div a b\<close> is that quotient rounded to 53 significant
  bits, ties to even (IEEE 754 binary64, the exponent taken as unbounded: the quotients
  of the source lie between \<open>2 ^ - 40\<close> and \<open>2 ^ 53\<close>).
\<close>

definition round_half_even :: "int \<Rightarrow> int \<Rightarrow> int" where
  "round_half_even n d =
     (let q = n div d; r = n mod d
      in if 2 * r < d then q
         else if d < 2 * r then q + 1
         else if even q then q else q + 1)"

text \<open>The binary exponent \<open>e\<close> of a positive quotient: \<open>2 ^ e \<le> a / b < 2 ^ (e + 1)\<close>.\<close>

definition binexp :: "int \<Rightarrow> int \<Rightarrow> int" where
  "binexp a b =
     (let d = bitlen a - bitlen b
      in if b * 2 ^ nat d \<le> a * 2 ^ nat (- d) then d else d - 1)"

definition js_div :: "nat \<Rightarrow> nat \<Rightarrow> rat" where
  "js_div a b =
     (if a = 0 then 0
      else
        let e = binexp (int a) (int b);
            m = round_half_even (int a * 2 ^ nat (52 - e)) (int b * 2 ^ nat (e - 52))
        in of_int m * 2 ^ nat (e - 52) / 2 ^ nat (52 - e))"

text \<open>
  \<open>ToInt32\<close>, applied by \<open>&\<close> to its operands: truncate towards zero, then reduce
  modulo \<open>2 ^ 32\<close>.
\<close>

definition js_to_int32 :: "rat \<Rightarrow> 32 word" where
  "js_to_int32 x = word_of_int (if 0 \<le> x then \<lfloor>x\<rfloor> else \<lceil>x\<rceil>)"

text \<open>\<open>x & 0xff\<close>, stored into a \<open>Uint8Array\<close> cell.\<close>

definition and_ff :: "rat \<Rightarrow> 8 word" where
  "and_ff x = ucast (js_to_int32 x AND 0xff)"

section \<open>The time-ordered generator\<close>

text \<open>
  \<open>randomBytes(n)\<close> reads \<open>n\<close> bytes of the random source; the source is a function
  from the position to the byte, so every fill of the bytes is an input of the model.
\<close>

definition randomBytes :: "nat \<Rightarrow> (nat \<Rightarrow> 8 word) \<Rightarrow> 8 word list" where
  "randomBytes n src = map src [0..<n]"

text \<open>\<open>bytes.set(part, off)\<close>: \<open>part\<close> overwrites the cells from \<open>off\<close> on.\<close>

definition set_at :: "8 word list \<Rightarrow> 8 word list \<Rightarrow> nat \<Rightarrow> 8 word list" where
  "set_at bytes part off = take off bytes @ part @ drop (off + length part) bytes"

text \<open>
  The sixteen bytes of \<open>generateUuidV7\<close> (server.ts, lines 223 to 245) for the reading
  \<open>timestamp\<close> of \<open>Date.now()\<close> and the random source \<open>src\<close>.
\<close>

definition v7_bytes :: "nat \<Rightarrow> (nat \<Rightarrow> 8 word) \<Rightarrow> 8 word list" where
  "v7_bytes timestamp src =
     (let bytes = replicate 16 (0 :: 8 word);
          bytes = bytes[0 := and_ff (js_div timestamp (2 ^ 40))];
          bytes = bytes[1 := and_ff (js_div timestamp (2 ^ 32))];
          bytes = bytes[2 := and_ff (js_div timestamp (2 ^ 24))];
          bytes = bytes[3 := and_ff (js_div timestamp (2 ^ 16))];
          bytes = bytes[4 := and_ff (js_div timestamp (2 ^ 8))];
          bytes = bytes[5 := and_ff (of_nat timestamp)];
          randomPart = randomBytes 10 src;
          bytes = set_at bytes randomPart 6;
          bytes = bytes[6 := (bytes ! 6 AND 0x0f) OR 0x70];
          bytes = bytes[8 := (bytes ! 8 AND 0x3f) OR 0x80]
      in bytes)"

text \<open>\<open>b.toString(16).padStart(2, "0")\<close> for a byte \<open>b\<close>.\<close>

definition hex_digit :: "nat \<Rightarrow> char" where
  "hex_digit n = ''0123456789abcdef'' ! n"

definition toString16 :: "8 word \<Rightarrow> string" where
  "toString16 b =
     (if unat b < 16 then [hex_digit (unat b)]
      else [hex_digit (unat b div 16), hex_digit (unat b mod 16)])"

definition padStart :: "nat \<Rightarrow> char \<Rightarrow> string \<Rightarrow> string" where
  "padStart n c s = replicate (n - length s) c @ s"

definition byte_hex :: "8 word \<Rightarrow> string" where
  "byte_hex b = padStart 2 (CHR ''0'') (toString16 b)"

text \<open>\<open>s.slice(a, b)\<close> and \<open>s.slice(a)\<close> for indices that are not negative.\<close>

definition slice :: "nat \<Rightarrow> nat \<Rightarrow> string \<Rightarrow> string" where
  "slice a b s = take (b - a) (drop a s)"

definition slice_from :: "nat \<Rightarrow> string \<Rightarrow> string" where
  "slice_from a s = drop a s"

text \<open>The canonical rendering of the last two statements of \<open>generateUuidV7\<close>.\<close>

definition format_uuid :: "8 word list \<Rightarrow> string" where
  "format_uuid bytes =
     (let hex = concat (map byte_hex bytes)
      in slice 0 8 hex @ ''-'' @ slice 8 12 hex @ ''-'' @ slice 12 16 hex @ ''-'' @
         slice 16 20 hex @ ''-'' @ slice_from 20 hex)"

definition generateUuidV7 :: "nat \<Rightarrow> (nat \<Rightarrow> 8 word) \<Rightarrow> string" where
  "generateUuidV7 timestamp src = format_uuid (v7_bytes timestamp src)"

text \<open>
  Modelled from the spec: \<open>randomUUID\<close> of \<open>node:crypto\<close> is not part of the repository.
  The spec's random variant fills 16 bytes from the random source, then forces the
  version marker (4) into the high nibble of byte 6 and the variant marker (binary 10)
  into the high two bits of byte 8, and formats the canonical string.
\<close>

definition v4_bytes :: "(nat \<Rightarrow> 8 word) \<Rightarrow> 8 word list" where
  "v4_bytes src =
     (let bytes = randomBytes 16 src;
          bytes = bytes[6 := (bytes ! 6 AND 0x0f) OR 0x40];
          bytes = bytes[8 := (bytes ! 8 AND 0x3f) OR 0x80]
      in bytes)"

definition randomUUID :: "(nat \<Rightarrow> 8 word) \<Rightarrow> string" where
  "randomUUID src = format_uuid (v4_bytes src)"

section \<open>The validator\<close>

text \<open>
  The pattern of \<open>validate_uuid\<close> (server.ts, line 136) is a sequence of character
  classes, each repeated a fixed number of times, between \<open>^\<close> and \<open>$\<close>, under the flag
  \<open>i\<close>. A \<open>char\<close> stands for one code unit of the JavaScript string. Under \<open>i\<close> a code
  unit matches a class when its canonical form (upper case, for the letters a to z)
  is the canonical form of a member; the code units outside a-z are their own
  canonical form as far as the ASCII classes of this pattern are concerned.
\<close>

definition canonicalize :: "char \<Rightarrow> char" where
  "canonicalize ch =
     (let n = (of_char ch :: nat)
      in if 97 \<le> n \<and> n \<le> 122 then char_of (n - 32) else ch)"

definition class_i :: "string \<Rightarrow> char \<Rightarrow> bool" where
  "class_i cs ch = (canonicalize ch \<in> set (map canonicalize cs))"

text \<open>\<open>match_rep cs n s\<close>: \<open>[cs]{n}\<close> at the front of \<open>s\<close>; the rest of \<open>s\<close> on success.\<close>

fun match_rep :: "string \<Rightarrow> nat \<Rightarrow> string \<Rightarrow> string option" where
  "match_rep cs 0 s = Some s"
| "match_rep cs (Suc n) [] = None"
| "match_rep cs (Suc n) (c # s) = (if class_i cs c then match_rep cs n s else None)"

text \<open>The items in sequence, then \<open>$\<close>: without the flag \<open>m\<close>, the end of the input.\<close>

fun match_items :: "(string \<times> nat) list \<Rightarrow> string \<Rightarrow> bool" where
  "match_items [] s = (s = [])"
| "match_items ((cs, n) # items) s =
     (case match_rep cs n s of None \<Rightarrow> False | Some rest \<Rightarrow> match_items items rest)"

definition hex_class :: string where
  "hex_class = ''0123456789abcdef''"

definition uuidPattern :: "(string \<times> nat) list" where
  "uuidPattern =
     [(hex_class, 8), (''-'', 1), (hex_class, 4), (''-'', 1),
      (''1234567'', 1), (hex_class, 3), (''-'', 1),
      (''89ab'', 1), (hex_class, 3), (''-'', 1), (hex_class, 12)]"

definition pattern_test :: "string \<Rightarrow> bool" where
  "pattern_test s = match_items uuidPattern s"

text \<open>
  The handler of \<open>validate_uuid\<close> (server.ts, lines 133 to 158). Its result is a text
  built from \<open>isValid\<close> and \<open>version\<close>; the model returns the two values. \<open>uuid[14]\<close> is
  \<open>undefined\<close> beyond the end of the string, and then \<open>version\<close> stays \<open>null\<close>.
\<close>

record validation =
  isValid :: bool
  detectedVersion :: "string option"

definition validate_uuid :: "string \<Rightarrow> validation" where
  "validate_uuid uuid =
     (let isValid = pattern_test uuid;
          version =
            (if isValid
             then (if 14 < length uuid then Some (''v'' @ [uuid ! 14]) else None)
             else None)
      in \<lparr>isValid = isValid, detectedVersion = version\<rparr>)"

text \<open>
  The canonical grammar in the words of the spec (section 4.1): exact length, hyphen
  positions, hex digits in either case, version nibble in 1..7, the top two bits of
  the variant nibble equal to binary 10.
\<close>

definition is_hex :: "char \<Rightarrow> bool" where
  "is_hex c = (c \<in> set ''0123456789abcdefABCDEF'')"

definition hex_value :: "char \<Rightarrow> nat" where
  "hex_value c =
     (let n = (of_char c :: nat)
      in if 48 \<le> n \<and> n \<le> 57 then n - 48
         else if 97 \<le> n \<and> n \<le> 102 then n - 87
         else n - 55)"

definition canonical_grammar :: "string \<Rightarrow> bool" where
  "canonical_grammar s =
     (length s = 36 \<and>
      (\<forall>i \<in> {0..<36}. if i \<in> {8, 13, 18, 23} then s ! i = CHR ''-'' else is_hex (s ! i)) \<and>
      hex_value (s ! 14) \<in> {1..7} \<and>
      hex_value (s ! 19) div 4 = 2)"

text \<open>The canonical string of the glossary: the same shape in lower case.\<close>

definition is_lower_hex :: "char \<Rightarrow> bool" where
  "is_lower_hex c = (c \<in> set ''0123456789abcdef'')"

definition canonical_format :: "string \<Rightarrow> bool" where
  "canonical_format s =
     (length s = 36 \<and>
      (\<forall>i \<in> {0..<36}. if i \<in> {8, 13, 18, 23} then s ! i = CHR ''-''
                       else is_lower_hex (s ! i)))"

section \<open>The history and the handler of \<open>generate_uuid\<close>\<close>

datatype uuid_version = V4 | V7

fun version_name :: "uuid_version \<Rightarrow> string" where
  "version_name V4 = ''v4''"
| "version_name V7 = ''v7''"

record entry =
  uuid :: string
  version :: uuid_version
  createdAt :: nat

text \<open>
  What one iteration of the loop reads from outside: the clock inside
  \<open>generateUuidV7\<close>, the random source, and the clock of \<open>new Date()\<close> at the push
  (\<open>toISOString\<close> renders that reading; the model keeps the milliseconds).
\<close>

record sample =
  now :: nat
  rnd :: "nat \<Rightarrow> 8 word"
  pushedAt :: nat

text \<open>
  The loop of the handler (server.ts, lines 78 to 99). \<open>count\<close> is a JavaScript number
  that arrived as JSON, so a rational; iteration \<open>i\<close> reads \<open>env i\<close>.
\<close>

function gen_loop ::
  "uuid_version \<Rightarrow> rat \<Rightarrow> (nat \<Rightarrow> sample) \<Rightarrow> nat \<Rightarrow> string list \<Rightarrow> entry list
     \<Rightarrow> string list \<times> entry list" where
  "gen_loop ver count env i uuids hist =
     (if of_nat i < count
      then
        let s = env i;
            u = (if ver = V7 then generateUuidV7 (now s) (rnd s) else randomUUID (rnd s))
        in gen_loop ver count env (Suc i) (uuids @ [u])
             (hist @ [\<lparr>uuid = u, version = ver, createdAt = pushedAt s\<rparr>])
      else (uuids, hist))"
  by pat_completeness auto
termination
proof (relation "measure (\<lambda>(ver, count, env, i, uuids, hist). nat \<lceil>count\<rceil> - i)")
  show "wf (measure (\<lambda>(ver, count :: rat, env, i, uuids, hist). nat \<lceil>count\<rceil> - i))"
    by simp
next
  fix ver :: uuid_version and count :: rat and env :: "nat \<Rightarrow> sample" and i :: nat
    and uuids :: "string list" and hist :: "entry list" and x :: sample and xa :: string
  assume "of_nat i < count"
  then have "int i < \<lceil>count\<rceil>" by (simp add: less_ceiling_iff)
  then show "((ver, count, env, Suc i, uuids @ [xa], hist @
        [\<lparr>uuid = xa, version = ver, createdAt = pushedAt x\<rparr>]),
      (ver, count, env, i, uuids, hist))
    \<in> measure (\<lambda>(ver, count, env, i, uuids, hist). nat \<lceil>count\<rceil> - i)"
    by simp
qed

text \<open>\<open>while (uuidHistory.length > 100) uuidHistory.shift()\<close>.\<close>

function shift_while :: "entry list \<Rightarrow> entry list" where
  "shift_while hist = (if 100 < length hist then shift_while (tl hist) else hist)"
  by pat_completeness auto
termination
  by (relation "measure length") auto

text \<open>
  The handler: the identifiers listed in its text, and the history it leaves. The text
  puts \<open>1.\<close>, \<open>2.\<close>, ... before the identifiers unless \<open>count\<close> is 1.
\<close>

definition generate_uuid ::
  "uuid_version \<Rightarrow> rat \<Rightarrow> (nat \<Rightarrow> sample) \<Rightarrow> entry list \<Rightarrow> string list \<times> entry list" where
  "generate_uuid ver count env uuidHistory =
     (let (uuids, hist) = gen_loop ver count env 0 [] uuidHistory
      in (uuids, shift_while hist))"

text \<open>The resource \<open>uuid://history\<close>: \<open>length\<close> and \<open>slice(-20)\<close>.\<close>

record history_view =
  totalCount :: nat
  history :: "entry list"

definition slice_last :: "nat \<Rightarrow> 'a list \<Rightarrow> 'a list" where
  "slice_last n xs = drop (length xs - n) xs"

definition read_history :: "entry list \<Rightarrow> history_view" where
  "read_history uuidHistory =
     \<lparr>totalCount = length uuidHistory, history = slice_last 20 uuidHistory\<rparr>"

section \<open>The input schemas\<close>

text \<open>
  The arguments of a \<open>tools/call\<close> request are a JSON object, a finite map from keys to
  JSON values; a JSON number is a rational (JSON has neither NaN nor an infinity).
\<close>

datatype json = JNull | JBool bool | JNum rat | JStr string | JArr "json list"
  | JObj "(string \<times> json) list"

datatype rpc_error = MethodNotFound | InvalidParams | InvalidSession | InternalError

fun error_code :: "rpc_error \<Rightarrow> int" where
  "error_code MethodNotFound = - 32601"
| "error_code InvalidParams = - 32602"
| "error_code InvalidSession = - 32000"
| "error_code InternalError = - 32603"

text \<open>
  Modelled from the spec: the check of the arguments against the declared schema is
  made by the protocol library (zod and the MCP SDK), which is not part of the
  repository. The spec (section 4.4) has it apply the declared default to a missing
  field, refuse a field that violates its type, range or enum constraint with
  \<open>InvalidParams\<close>, and only then run the handler. The constraints are the ones
  server.ts declares for \<open>generate_uuid\<close> (lines 67 to 73):
  \<open>z.enum(["v4", "v7"]).default("v4")\<close> and \<open>z.number().min(1).max(10).default(1)\<close>,
  a number between the inclusive bounds 1 and 10, with no \<open>int()\<close>.
\<close>

fun parse_version :: "json option \<Rightarrow> rpc_error + uuid_version" where
  "parse_version None = Inr V4"
| "parse_version (Some (JStr s)) =
     (if s = ''v4'' then Inr V4 else if s = ''v7'' then Inr V7 else Inl InvalidParams)"
| "parse_version (Some _) = Inl InvalidParams"

fun parse_count :: "json option \<Rightarrow> rpc_error + rat" where
  "parse_count None = Inr 1"
| "parse_count (Some (JNum x)) =
     (if x < 1 then Inl InvalidParams else if 10 < x then Inl InvalidParams else Inr x)"
| "parse_count (Some _) = Inl InvalidParams"

text \<open>The schema of \<open>validate_uuid\<close> (line 130): \<open>z.string()\<close>, required.\<close>

fun parse_uuid :: "json option \<Rightarrow> rpc_error + string" where
  "parse_uuid (Some (JStr s)) = Inr s"
| "parse_uuid _ = Inl InvalidParams"

section \<open>One server instance\<close>

text \<open>
  The requests the claims speak of, and their replies. What the protocol library
  answers on its own (the handshake result, listings, unknown methods) is \<open>Library\<close>.
\<close>

datatype body =
    Initialize
  | CallGenerate "string \<rightharpoonup> json"
  | CallValidate "string \<rightharpoonup> json"
  | ReadHistory
  | OtherBody

datatype reply =
    HttpError nat int
  | RpcError rpc_error
  | Generated "string list"
  | Validated validation
  | History history_view
  | Minted string
  | Library

text \<open>
  A server made by \<open>createUuidServer\<close> checks the arguments against the schema, and only
  then runs the handler. Its handlers are closures over the array \<open>uuidHistory\<close> of the
  module (server.ts, line 21), not over anything of the instance: \<open>dispatch\<close> takes that
  array and returns it.
\<close>

definition dispatch ::
  "body \<Rightarrow> (nat \<Rightarrow> sample) \<Rightarrow> entry list \<Rightarrow> reply \<times> entry list" where
  "dispatch b env uuidHistory =
     (case b of
        CallGenerate args \<Rightarrow>
          (case parse_version (args ''version'') of
             Inl e \<Rightarrow> (RpcError e, uuidHistory)
           | Inr ver \<Rightarrow>
               (case parse_count (args ''count'') of
                  Inl e \<Rightarrow> (RpcError e, uuidHistory)
                | Inr count \<Rightarrow>
                    (let (uuids, hist) = generate_uuid ver count env uuidHistory
                     in (Generated uuids, hist))))
      | CallValidate args \<Rightarrow>
          (case parse_uuid (args ''uuid'') of
             Inl e \<Rightarrow> (RpcError e, uuidHistory)
           | Inr s \<Rightarrow> (Validated (validate_uuid s), uuidHistory))
      | ReadHistory \<Rightarrow> (History (read_history uuidHistory), uuidHistory)
      | _ \<Rightarrow> (Library, uuidHistory))"

section \<open>The HTTP sessions\<close>

text \<open>
  The state of a process in HTTP mode (index.ts): the module's one array
  \<open>uuidHistory\<close>, the map \<open>sessions\<close> from session id to the transport of that session
  (each connected to a server instance of its own, numbered here in order of
  creation), and the number of instances created so far.
\<close>

record process =
  uuidHistory :: "entry list"
  sessions :: "string \<rightharpoonup> nat"
  instances :: nat

text \<open>
  \<open>req.headers["mcp-session-id"]\<close> is a string or \<open>undefined\<close>. The tests
  \<open>sessionId && sessions.has(sessionId)\<close> and \<open>!sessionId\<close> take \<open>undefined\<close> and the
  empty string as false: a header without a value counts as no header.
\<close>

fun truthy :: "string option \<Rightarrow> bool" where
  "truthy None = False"
| "truthy (Some s) = (s \<noteq> [])"

fun known :: "string option \<Rightarrow> process \<Rightarrow> bool" where
  "known None p = False"
| "known (Some s) p = (s \<noteq> [] \<and> s \<in> dom (sessions p))"

text \<open>
  \<open>app.post("/mcp")\<close> (index.ts, lines 140 to 190). \<open>fresh\<close> is what
  \<open>sessionIdGenerator\<close> returns if the request creates a session; the callback
  \<open>onsessioninitialized\<close> stores the new transport under it. A request of a known
  session goes to the server of that session, whose handlers work on the one array of
  the module.
\<close>

definition post_mcp ::
  "string option \<Rightarrow> body \<Rightarrow> string \<Rightarrow> (nat \<Rightarrow> sample) \<Rightarrow> process \<Rightarrow> reply \<times> process" where
  "post_mcp sessionId b fresh env p =
     (if known sessionId p
      then
        (let (r, hist) = dispatch b env (uuidHistory p)
         in (r, p\<lparr>uuidHistory := hist\<rparr>))
      else if \<not> truthy sessionId \<and> b = Initialize
      then
        (Minted fresh,
         p\<lparr>sessions := (sessions p)(fresh \<mapsto> instances p), instances := Suc (instances p)\<rparr>)
      else (HttpError 400 (- 32000), p))"

section \<open>Closed forms and call sequences\<close>

text \<open>
  The identifier and the record that iteration \<open>i\<close> of the loop produces, and the number
  of iterations \<open>for (let i = 0; i < count; i++)\<close> makes.
\<close>

definition loop_uuid :: "uuid_version \<Rightarrow> (nat \<Rightarrow> sample) \<Rightarrow> nat \<Rightarrow> string" where
  "loop_uuid ver env i =
     (if ver = V7 then generateUuidV7 (now (env i)) (rnd (env i)) else randomUUID (rnd (env i)))"

definition loop_entry :: "uuid_version \<Rightarrow> (nat \<Rightarrow> sample) \<Rightarrow> nat \<Rightarrow> entry" where
  "loop_entry ver env i =
     \<lparr>uuid = loop_uuid ver env i, version = ver, createdAt = pushedAt (env i)\<rparr>"

definition iterations :: "rat \<Rightarrow> nat" where
  "iterations count = nat \<lceil>count\<rceil>"

text \<open>
  A call of \<open>generate_uuid\<close> is its two arguments and what its loop reads. \<open>pushed\<close> is
  what the loop of one call pushes, \<open>run_calls\<close> the array after a sequence of calls.
\<close>

type_synonym call = "uuid_version \<times> rat \<times> (nat \<Rightarrow> sample)"

fun pushed :: "call \<Rightarrow> entry list" where
  "pushed (ver, count, env) = snd (gen_loop ver count env 0 [] [])"

fun run_calls :: "call list \<Rightarrow> entry list \<Rightarrow> entry list" where
  "run_calls [] hist = hist"
| "run_calls ((ver, count, env) # calls) hist =
     run_calls calls (snd (generate_uuid ver count env hist))"

text \<open>The number that a sequence of bytes denotes, most significant byte first.\<close>

definition be_value :: "8 word list \<Rightarrow> nat" where
  "be_value bytes = foldl (\<lambda>a b. 256 * a + unat b) 0 bytes"

text \<open>The \<open>k\<close> base-256 digits of a number, most significant first.\<close>

fun digits256 :: "nat \<Rightarrow> nat \<Rightarrow> nat list" where
  "digits256 0 t = []"
| "digits256 (Suc k) t = digits256 k (t div 256) @ [t mod 256]"

text \<open>
  The first thirteen characters of the string: bytes 0 to 3, a hyphen, bytes 4 and 5.
\<close>

fun ts_prefix :: "8 word list \<Rightarrow> string" where
  "ts_prefix [a, b, c, d, e, f] =
     byte_hex a @ byte_hex b @ byte_hex c @ byte_hex d @ ''-'' @ byte_hex e @ byte_hex f"
| "ts_prefix _ = []"

text \<open>The class that the pattern puts at each position of the input.\<close>

fun expand :: "(string \<times> nat) list \<Rightarrow> string list" where
  "expand [] = []"
| "expand ((cs, n) # items) = replicate n cs @ expand items"

text \<open>Concrete readings for the worked examples: a clock and two random sources.\<close>

definition src_zero :: "nat \<Rightarrow> 8 word" where
  "src_zero j = 0"

definition src_ones :: "nat \<Rightarrow> 8 word" where
  "src_ones j = 255"

definition env_zero :: "nat \<Rightarrow> sample" where
  "env_zero i = \<lparr>now = 1730000000000, rnd = src_zero, pushedAt = 1730000000000\<rparr>"

definition env_ones :: "nat \<Rightarrow> sample" where
  "env_ones i = \<lparr>now = 1730000000000, rnd = src_ones, pushedAt = 1730000000000\<rparr>"

definition ten_v4 :: call where
  "ten_v4 = (V4, 10, env_zero)"

definition ten_v7 :: call where
  "ten_v7 = (V7, 10, env_ones)"

text \<open>
  Arguments of worked calls: none at all, and a count of one and a half. A process with
  two sessions, \<open>a\<close> and \<open>b\<close>, and nothing generated yet.
\<close>

definition no_args :: "string \<rightharpoonup> json" where
  "no_args = Map.empty"

definition count_three_halves :: "string \<rightharpoonup> json" where
  "count_three_halves = [''count'' \<mapsto> JNum (3 / 2)]"

definition count_zero :: "string \<rightharpoonup> json" where
  "count_zero = [''count'' \<mapsto> JNum 0]"

definition count_eleven :: "string \<rightharpoonup> json" where
  "count_eleven = [''count'' \<mapsto> JNum 11]"

definition two_sessions :: process where
  "two_sessions = \<lparr>uuidHistory = [], sessions = [''a'' \<mapsto> 0, ''b'' \<mapsto> 1], instances = 2\<rparr>"

declare gen_loop.simps [simp del]

declare shift_while.simps [simp del]

section \<open>Arithmetic of the timestamp bytes\<close>

text \<open>Dividing a number below \<open>2 ^ 53\<close> by a power of two loses nothing to rounding.\<close>

lemma round_half_even_exact:
  assumes "0 < d"
  shows "round_half_even (x * d) d = x"
  using assms by (simp add: round_half_even_def)

lemma bitlen_le_53:
  assumes "a < 2 ^ 53"
  shows "bitlen a \<le> 53"
proof (rule ccontr)
  assume "\<not> bitlen a \<le> 53"
  then have n: "54 \<le> bitlen a" by simp
  then have pos: "0 < a" using bitlen_eq_zero_iff [of a] by (cases "0 < a") auto
  have "(2::int) ^ 53 \<le> 2 ^ nat (bitlen a - 1)"
    using n by (intro power_increasing) auto
  also have "\<dots> \<le> a" using bitlen_bounds [OF pos] by simp
  finally show False using assms by simp
qed

lemma binexp_pow2_le:
  assumes "int a < 2 ^ 53"
  shows "binexp (int a) (2 ^ k) \<le> 52 - int k"
proof -
  have "bitlen (1 * 2 ^ k) = bitlen 1 + int k"
    by (rule bitlen_pow2) simp
  moreover have "bitlen 1 = 1" by (simp add: bitlen_alt_def)
  ultimately have b: "bitlen (2 ^ k) = 1 + int k" by simp
  have "binexp (int a) (2 ^ k) \<le> bitlen (int a) - bitlen (2 ^ k)"
    by (simp add: binexp_def Let_def)
  then show ?thesis using bitlen_le_53 [OF assms] b by simp
qed

lemma js_div_pow2_exact:
  assumes "t < 2 ^ 53"
  shows "js_div t (2 ^ k) = of_nat t / 2 ^ k"
proof (cases "t = 0")
  case True
  then show ?thesis by (simp add: js_div_def)
next
  case False
  define e where "e = binexp (int t) (2 ^ k)"
  have "int t < 2 ^ 53" using assms by (metis of_nat_less_numeral_power_cancel_iff)
  then have e: "e \<le> 52 - int k" unfolding e_def by (rule binexp_pow2_le)
  define j where "j = nat (52 - e) - k"
  have j: "nat (52 - e) = j + k" and z: "nat (e - 52) = 0"
    using e by (simp_all add: j_def)
  have "round_half_even (int t * 2 ^ nat (52 - e)) (2 ^ k * 2 ^ nat (e - 52)) = int t * 2 ^ j"
    using round_half_even_exact [of "2 ^ k" "int t * 2 ^ j"]
    by (simp add: j z power_add mult.assoc)
  then have "js_div t (2 ^ k) = of_int (int t * 2 ^ j) / 2 ^ (j + k)"
    using False by (simp add: js_div_def Let_def e_def [symmetric] j z)
  then show ?thesis by (simp add: power_add)
qed

lemma and_ff_nonneg:
  assumes "0 \<le> x"
  shows "uint (and_ff x) = \<lfloor>x\<rfloor> mod 256"
proof -
  define w :: "32 word" where "w = word_of_int \<lfloor>x\<rfloor>"
  have m: "(0xff :: 32 word) = mask 8" by (simp add: mask_eq_exp_minus_1)
  have "uint (ucast (w AND mask 8) :: 8 word) = take_bit 8 (uint (take_bit 8 w))"
    by (simp add: unsigned_ucast_eq take_bit_eq_mask)
  also have "\<dots> = take_bit 8 (uint w)"
    by (simp add: unsigned_take_bit_eq)
  also have "\<dots> = take_bit 8 \<lfloor>x\<rfloor>"
    by (simp add: w_def uint_word_of_int_eq)
  finally show ?thesis
    using assms by (simp add: and_ff_def js_to_int32_def m w_def take_bit_eq_mod)
qed

section \<open>The bytes and the string in closed form\<close>

lemma upt_10: "[0..<10] = [0,1,2,3,4,5,6,7,8,9]"
  by (simp add: upt_rec)

lemma upt_16: "[0..<16] = [0,1,2,3,4,5,6,7,8,9,10,11,12,13,14,15]"
  by (simp add: upt_rec)

lemma replicate_16:
  "replicate 16 (0 :: 8 word) = [0, 0, 0, 0, 0, 0, 0, 0, 0, 0, 0, 0, 0, 0, 0, 0]"
  by (simp add: numeral_eq_Suc)

lemma v7_bytes_eq:
  "v7_bytes t src =
     [and_ff (js_div t (2 ^ 40)), and_ff (js_div t (2 ^ 32)), and_ff (js_div t (2 ^ 24)),
      and_ff (js_div t (2 ^ 16)), and_ff (js_div t (2 ^ 8)), and_ff (of_nat t),
      (src 0 AND 0x0f) OR 0x70, src 1, (src 2 AND 0x3f) OR 0x80, src 3,
      src 4, src 5, src 6, src 7, src 8, src 9]"
  unfolding v7_bytes_def Let_def replicate_16 randomBytes_def upt_10 set_at_def
  by simp

lemma v4_bytes_eq:
  "v4_bytes src =
     [src 0, src 1, src 2, src 3, src 4, src 5,
      (src 6 AND 0x0f) OR 0x40, src 7, (src 8 AND 0x3f) OR 0x80, src 9,
      src 10, src 11, src 12, src 13, src 14, src 15]"
  by (simp add: v4_bytes_def Let_def randomBytes_def upt_16)

lemma byte_hex_eq: "byte_hex b = [hex_digit (unat b div 16), hex_digit (unat b mod 16)]"
  by (simp add: byte_hex_def padStart_def toString16_def hex_digit_def)

lemma format_uuid_eq:
  "format_uuid [b0, b1, b2, b3, b4, b5, b6, b7, b8, b9, b10, b11, b12, b13, b14, b15] =
     byte_hex b0 @ byte_hex b1 @ byte_hex b2 @ byte_hex b3 @ ''-'' @
     byte_hex b4 @ byte_hex b5 @ ''-'' @ byte_hex b6 @ byte_hex b7 @ ''-'' @
     byte_hex b8 @ byte_hex b9 @ ''-'' @
     byte_hex b10 @ byte_hex b11 @ byte_hex b12 @ byte_hex b13 @ byte_hex b14 @ byte_hex b15"
  by (simp add: format_uuid_def Let_def slice_def slice_from_def byte_hex_eq)

text \<open>Forcing the marker bits: the high nibble of byte 6 and of byte 8.\<close>

lemma or_disjoint_unat:
  fixes x m c :: "8 word"
  assumes "m AND c = 0" "unat m + unat c < 256"
  shows "unat ((x AND m) OR c) = unat (x AND m) + unat c"
proof -
  have le: "unat (x AND m) \<le> unat m"
    by (rule word_and_le1 [THEN word_le_nat_alt [THEN iffD1]])
  have "(x AND m) AND c = 0"
    using assms(1) by (simp add: and.assoc)
  then have "(x AND m) + c = (x AND m) OR c"
    by (rule disjunctive_add_eq_or)
  moreover have "unat ((x AND m) + c) = unat (x AND m) + unat c"
    using le assms(2) by (simp add: unat_add_lem [THEN iffD1])
  ultimately show ?thesis by simp
qed

lemma version_nibble:
  fixes x :: "8 word"
  shows "unat ((x AND 0x0f) OR 0x70) div 16 = 7" and "unat ((x AND 0x0f) OR 0x40) div 16 = 4"
proof -
  have le: "unat (x AND 0x0f) \<le> 15"
    using word_and_le1 [of x "0x0f", THEN word_le_nat_alt [THEN iffD1]] by simp
  have "unat ((x AND 0x0f) OR 0x70) = unat (x AND 0x0f) + 112"
    using or_disjoint_unat [of "0x0f" "0x70" x] by simp
  then show "unat ((x AND 0x0f) OR 0x70) div 16 = 7" using le by simp
  have "unat ((x AND 0x0f) OR 0x40) = unat (x AND 0x0f) + 64"
    using or_disjoint_unat [of "0x0f" "0x40" x] by simp
  then show "unat ((x AND 0x0f) OR 0x40) div 16 = 4" using le by simp
qed

lemma variant_nibble:
  fixes x :: "8 word"
  shows "unat ((x AND 0x3f) OR 0x80) div 16 \<in> {8, 9, 10, 11}"
proof -
  have le: "unat (x AND 0x3f) \<le> 63"
    using word_and_le1 [of x "0x3f", THEN word_le_nat_alt [THEN iffD1]] by simp
  have "unat ((x AND 0x3f) OR 0x80) = unat (x AND 0x3f) + 128"
    using or_disjoint_unat [of "0x3f" "0x80" x] by simp
  then have "8 \<le> unat ((x AND 0x3f) OR 0x80) div 16" "unat ((x AND 0x3f) OR 0x80) div 16 \<le> 11"
    using le by simp_all
  then show ?thesis by auto
qed

section \<open>The timestamp bytes are the digits of the timestamp\<close>

lemma ts_byte_exact:
  assumes "t < 2 ^ 53"
  shows "unat (and_ff (js_div t (2 ^ k))) = (t div 2 ^ k) mod 256"
proof -
  have fl: "\<lfloor>(of_nat t :: rat) / 2 ^ k\<rfloor> = int (t div 2 ^ k)"
    using floor_divide_of_nat_eq [of t "2 ^ k", where ?'a = rat] by simp
  have "uint (and_ff (js_div t (2 ^ k))) = int (t div 2 ^ k) mod 256"
    using and_ff_nonneg [of "of_nat t / 2 ^ k"] fl js_div_pow2_exact [OF assms, of k] by simp
  then have "int (unat (and_ff (js_div t (2 ^ k)))) = int ((t div 2 ^ k) mod 256)"
    by (simp add: zmod_int)
  then show ?thesis by (simp only: of_nat_eq_iff)
qed

lemma low_byte_exact: "unat (and_ff (of_nat t)) = t mod 256"
proof -
  have "uint (and_ff (of_nat t)) = int t mod 256"
    using and_ff_nonneg [of "of_nat t"] by simp
  then have "int (unat (and_ff (of_nat t))) = int (t mod 256)"
    by (simp add: zmod_int)
  then show ?thesis by (simp only: of_nat_eq_iff)
qed

section \<open>Generated strings match the pattern\<close>

lemma hex_digit_cases:
  assumes "n < 16"
  shows "hex_digit n \<in> set ''0123456789abcdef''"
proof -
  have "\<forall>n \<in> set [0..<16]. hex_digit n \<in> set ''0123456789abcdef''"
    unfolding upt_16 by (simp add: hex_digit_def)
  then show ?thesis using assms by simp
qed

lemma class_i_hex_digit:
  assumes "n < 16"
  shows "class_i hex_class (hex_digit n)"
proof -
  have "\<forall>n \<in> set [0..<16]. class_i hex_class (hex_digit n)"
    unfolding upt_16 by (simp add: hex_digit_def class_i_def hex_class_def canonicalize_def)
  then show ?thesis using assms by simp
qed

lemma class_i_variant:
  assumes "n \<in> {8, 9, 10, 11}"
  shows "class_i ''89ab'' (hex_digit n)"
  using assms by (auto simp add: hex_digit_def class_i_def canonicalize_def)

lemma class_i_version: "class_i ''1234567'' (hex_digit 7)" "class_i ''1234567'' (hex_digit 4)"
  by (simp_all add: hex_digit_def class_i_def canonicalize_def)

lemma class_i_dash: "class_i ''-'' (CHR ''-'')"
  by (simp add: class_i_def canonicalize_def)

lemma match_rep_Cons:
  "match_rep cs n (c # s) =
     (if n = 0 then Some (c # s) else if class_i cs c then match_rep cs (n - 1) s else None)"
  by (cases n) simp_all

lemma match_rep_Nil: "match_rep cs n [] = (if n = 0 then Some [] else None)"
  by (cases n) simp_all

lemma pattern_test_format:
  assumes "unat b6 div 16 = 7 \<or> unat b6 div 16 = 4" "unat b8 div 16 \<in> {8, 9, 10, 11}"
  shows "pattern_test (format_uuid [b0, b1, b2, b3, b4, b5, b6, b7, b8, b9, b10, b11, b12, b13, b14, b15])"
proof -
  have v: "class_i ''1234567'' (hex_digit (unat b6 div 16))"
    using assms(1) class_i_version by auto
  have w: "class_i ''89ab'' (hex_digit (unat b8 div 16))"
    using assms(2) by (rule class_i_variant)
  have h: "class_i hex_class (hex_digit (unat b div 16))" "class_i hex_class (hex_digit (unat b mod 16))" for b :: "8 word"
    using unsigned_less [of b, where ?'a = nat] by (simp_all add: class_i_hex_digit div_less_iff_less_mult)
  show ?thesis
    by (simp add: pattern_test_def uuidPattern_def format_uuid_eq byte_hex_eq match_rep_Cons
        match_rep_Nil v w h class_i_dash)
qed

lemma nth_14_format:
  "format_uuid [b0, b1, b2, b3, b4, b5, b6, b7, b8, b9, b10, b11, b12, b13, b14, b15] ! 14
     = hex_digit (unat b6 div 16)"
  by (simp add: format_uuid_eq byte_hex_eq)

lemma length_format:
  "length (format_uuid [b0, b1, b2, b3, b4, b5, b6, b7, b8, b9, b10, b11, b12, b13, b14, b15]) = 36"
  by (simp add: format_uuid_eq byte_hex_eq)

lemma is_lower_hex_digit:
  assumes "n < 16"
  shows "is_lower_hex (hex_digit n)"
  using hex_digit_cases [OF assms] by (simp add: is_lower_hex_def)

lemma ball_upt_36:
  "(\<forall>i \<in> {0..<36}. P i) \<longleftrightarrow> (\<forall>i \<in> set [0..<36]. P i)"
  by simp

lemma upt_36:
  "[0..<36] = [0,1,2,3,4,5,6,7,8,9,10,11,12,13,14,15,16,17,18,19,20,21,22,23,24,25,26,27,28,
     29,30,31,32,33,34,35]"
  by (simp add: upt_rec)

lemma canonical_format_format:
  "canonical_format (format_uuid [b0, b1, b2, b3, b4, b5, b6, b7, b8, b9, b10, b11, b12, b13, b14, b15])"
proof -
  have h: "is_lower_hex (hex_digit (unat b div 16))" "is_lower_hex (hex_digit (unat b mod 16))"
    for b :: "8 word"
    using unsigned_less [of b, where ?'a = nat]
    by (simp_all add: is_lower_hex_digit div_less_iff_less_mult)
  show ?thesis
    unfolding canonical_format_def ball_upt_36 upt_36
    by (simp add: format_uuid_eq byte_hex_eq h)
qed

lemma validate_format:
  assumes "unat b6 div 16 = 7 \<or> unat b6 div 16 = 4" "unat b8 div 16 \<in> {8, 9, 10, 11}"
  shows "validate_uuid (format_uuid [b0, b1, b2, b3, b4, b5, b6, b7, b8, b9, b10, b11, b12, b13, b14, b15])
    = \<lparr>isValid = True, detectedVersion = Some (''v'' @ [hex_digit (unat b6 div 16)])\<rparr>"
  using pattern_test_format [OF assms]
  by (simp add: validate_uuid_def Let_def nth_14_format length_format)

lemma validate_v7:
  "validate_uuid (generateUuidV7 t src) = \<lparr>isValid = True, detectedVersion = Some ''v7''\<rparr>"
  unfolding generateUuidV7_def v7_bytes_eq
  using variant_nibble [of "src 2"]
  by (subst validate_format) (simp_all add: version_nibble hex_digit_def)

lemma validate_v4:
  "validate_uuid (randomUUID src) = \<lparr>isValid = True, detectedVersion = Some ''v4''\<rparr>"
  unfolding randomUUID_def v4_bytes_eq
  using variant_nibble [of "src 8"]
  by (subst validate_format) (simp_all add: version_nibble hex_digit_def)

lemma canonical_v7: "canonical_format (generateUuidV7 t src)"
  unfolding generateUuidV7_def v7_bytes_eq by (rule canonical_format_format)

lemma canonical_v4: "canonical_format (randomUUID src)"
  unfolding randomUUID_def v4_bytes_eq by (rule canonical_format_format)

section \<open>The loops in closed form\<close>

lemma gen_loop_eq:
  "gen_loop ver count env i uuids hist =
     (uuids @ map (loop_uuid ver env) [i..<iterations count],
      hist @ map (loop_entry ver env) [i..<iterations count])"
proof (induction ver count env i uuids hist rule: gen_loop.induct)
  case (1 ver count env i uuids hist)
  show ?case
  proof (cases "of_nat i < count")
    case True
    then have "int i < \<lceil>count\<rceil>" by (simp add: less_ceiling_iff)
    then have lt: "i < iterations count" by (simp add: iterations_def)
    have "gen_loop ver count env i uuids hist =
        gen_loop ver count env (Suc i) (uuids @ [loop_uuid ver env i])
          (hist @ [loop_entry ver env i])"
      using True by (subst gen_loop.simps) (simp add: Let_def loop_uuid_def loop_entry_def)
    also have "\<dots> = ((uuids @ [loop_uuid ver env i]) @ map (loop_uuid ver env) [Suc i..<iterations count],
        (hist @ [loop_entry ver env i]) @ map (loop_entry ver env) [Suc i..<iterations count])"
      using 1 [OF True refl refl] by (simp add: loop_uuid_def loop_entry_def)
    finally show ?thesis using lt by (simp add: upt_conv_Cons)
  next
    case False
    then have "\<not> int i < \<lceil>count\<rceil>" by (simp add: less_ceiling_iff)
    then have "iterations count \<le> i" by (simp add: iterations_def)
    then show ?thesis using False by (subst gen_loop.simps) simp
  qed
qed

lemma shift_while_eq: "shift_while hist = slice_last 100 hist"
proof (induction hist rule: shift_while.induct)
  case (1 hist)
  show ?case
  proof (cases "100 < length hist")
    case True
    have "shift_while hist = shift_while (tl hist)"
      using True by (subst shift_while.simps) simp
    also have "\<dots> = slice_last 100 (tl hist)" using 1 [OF True] .
    also have "\<dots> = drop (Suc (length hist - 101)) hist"
      by (simp add: slice_last_def drop_Suc)
    also have "Suc (length hist - 101) = length hist - 100"
      using True by arith
    finally show ?thesis by (simp add: slice_last_def)
  next
    case False
    then show ?thesis by (subst shift_while.simps) (simp add: slice_last_def)
  qed
qed

lemma generate_uuid_eq:
  "generate_uuid ver count env hist =
     (map (loop_uuid ver env) [0..<iterations count],
      slice_last 100 (hist @ map (loop_entry ver env) [0..<iterations count]))"
  by (simp add: generate_uuid_def gen_loop_eq shift_while_eq)

lemma pushed_eq: "pushed (ver, count, env) = map (loop_entry ver env) [0..<iterations count]"
  by (simp add: gen_loop_eq)

lemma slice_last_slice_last:
  "slice_last n (slice_last n xs @ ys) = slice_last n (xs @ ys)"
  by (cases "length xs \<le> n") (auto simp add: slice_last_def add.commute)

lemma length_slice_last: "length (slice_last n xs) = min n (length xs)"
  by (auto simp add: slice_last_def)

lemma run_calls_eq:
  assumes "length hist \<le> 100"
  shows "run_calls calls hist = slice_last 100 (hist @ concat (map pushed calls))"
  using assms
proof (induction calls arbitrary: hist)
  case Nil
  then show ?case by (simp add: slice_last_def)
next
  case (Cons c calls)
  obtain ver count env where c: "c = (ver, count, env)" by (cases c)
  have "length (slice_last 100 (hist @ pushed c)) \<le> 100"
    by (simp add: length_slice_last)
  then have "run_calls (c # calls) hist =
      slice_last 100 (slice_last 100 (hist @ pushed c) @ concat (map pushed calls))"
    unfolding c by (simp add: Cons.IH generate_uuid_eq pushed_eq del: pushed.simps)
  also have "\<dots> = slice_last 100 ((hist @ pushed c) @ concat (map pushed calls))"
    by (rule slice_last_slice_last)
  finally show ?case by simp
qed

lemma iterations_of_nat: "iterations (of_nat k) = k"
  by (simp add: iterations_def)

section \<open>What one call produces\<close>

lemma slice_last_keeps_tail:
  assumes "length ys \<le> n"
  shows "slice_last (length ys) (slice_last n (xs @ ys)) = ys"
  using assms by (auto simp add: slice_last_def min_def)

lemma loop_uuid_validates:
  "validate_uuid (loop_uuid ver env i) = \<lparr>isValid = True, detectedVersion = Some (version_name ver)\<rparr>"
  by (cases ver) (simp_all add: loop_uuid_def validate_v7 validate_v4)

lemma loop_uuid_canonical: "canonical_format (loop_uuid ver env i)"
  by (simp add: loop_uuid_def canonical_v7 canonical_v4)

lemma iterations_pos:
  assumes "1 \<le> count"
  shows "0 < iterations count"
proof -
  have "0 < \<lceil>count\<rceil>" using assms by (simp add: less_ceiling_iff)
  then show ?thesis by (simp add: iterations_def)
qed

lemma length_pushed: "length (pushed (ver, count, env)) = iterations count"
  by (simp add: pushed_eq del: pushed.simps)

lemma iterations_10: "iterations 10 = 10"
  by (simp add: iterations_def)

section \<open>Worked values of the generator\<close>

lemma ts_byte_word:
  assumes "t < 2 ^ 53"
  shows "and_ff (js_div t (2 ^ k)) = of_nat ((t div 2 ^ k) mod 256)"
proof -
  have "and_ff (js_div t (2 ^ k)) = of_nat (unat (and_ff (js_div t (2 ^ k))))" by simp
  then show ?thesis by (simp only: ts_byte_exact [OF assms])
qed

lemma low_byte_word: "and_ff (of_nat t) = of_nat (t mod 256)"
proof -
  have "and_ff (of_nat t) = of_nat (unat (and_ff (of_nat t)))" by simp
  then show ?thesis by (simp only: low_byte_exact)
qed

lemma v7_bytes_1730:
  "v7_bytes 1730000000000 src =
     [0x01, 0x92, 0xcc, 0x09, 0x14, 0x00,
      (src 0 AND 0x0f) OR 0x70, src 1, (src 2 AND 0x3f) OR 0x80, src 3,
      src 4, src 5, src 6, src 7, src 8, src 9]"
proof -
  have b: "(1730000000000 :: nat) < 2 ^ 53" by simp
  have "and_ff (js_div 1730000000000 (2 ^ 40)) = 0x01"
    and "and_ff (js_div 1730000000000 (2 ^ 32)) = 0x92"
    and "and_ff (js_div 1730000000000 (2 ^ 24)) = 0xcc"
    and "and_ff (js_div 1730000000000 (2 ^ 16)) = 0x09"
    and "and_ff (js_div 1730000000000 (2 ^ 8)) = 0x14"
    and "and_ff (of_nat 1730000000000) = 0x00"
    unfolding ts_byte_word [OF b] low_byte_word by simp_all
  then show ?thesis unfolding v7_bytes_eq by (simp only:)
qed

lemma eval_v7_ones:
  "generateUuidV7 1730000000000 src_ones = ''0192cc09-1400-7fff-bfff-ffffffffffff''"
  unfolding generateUuidV7_def v7_bytes_1730
  by (simp add: format_uuid_eq byte_hex_eq hex_digit_def src_ones_def)

lemma eval_v7_zero:
  "generateUuidV7 1730000000000 src_zero = ''0192cc09-1400-7000-8000-000000000000''"
  unfolding generateUuidV7_def v7_bytes_1730
  by (simp add: format_uuid_eq byte_hex_eq hex_digit_def src_zero_def)

lemma eval_v4_zero:
  "randomUUID src_zero = ''00000000-0000-4000-8000-000000000000''"
  by (simp add: randomUUID_def v4_bytes_eq format_uuid_eq byte_hex_eq hex_digit_def src_zero_def)

section \<open>The bytes as one big-endian number\<close>

lemma split_256: "256 * (m div 256) + m mod 256 = (m :: nat)"
  by simp

lemma div_pow_step: "(t :: nat) div 2 ^ (k + 8) = t div 2 ^ k div 256"
  by (simp add: power_add div_mult2_eq)

lemma be_digits:
  fixes t :: nat
  assumes "t < 2 ^ 48"
  shows "256 * (256 * (256 * (256 * (256 * (t div 2 ^ 40 mod 256) + t div 2 ^ 32 mod 256)
            + t div 2 ^ 24 mod 256) + t div 2 ^ 16 mod 256) + t div 2 ^ 8 mod 256) + t mod 256 = t"
proof -
  have top: "t div 2 ^ 40 < 256"
    using assms by (simp add: div_less_iff_less_mult)
  have d40: "t div 2 ^ 40 = t div 2 ^ 32 div 256" using div_pow_step [of t 32] by simp
  have d32: "t div 2 ^ 32 = t div 2 ^ 24 div 256" using div_pow_step [of t 24] by simp
  have d24: "t div 2 ^ 24 = t div 2 ^ 16 div 256" using div_pow_step [of t 16] by simp
  have d16: "t div 2 ^ 16 = t div 2 ^ 8 div 256" using div_pow_step [of t 8] by simp
  have d8: "t div 2 ^ 8 = t div 256" by simp
  have "256 * (t div 2 ^ 40 mod 256) + t div 2 ^ 32 mod 256 = t div 2 ^ 32"
    using top split_256 [of "t div 2 ^ 32"] by (simp only: d40 [symmetric] mod_less)
  moreover have "256 * (t div 2 ^ 32) + t div 2 ^ 24 mod 256 = t div 2 ^ 24"
    using split_256 [of "t div 2 ^ 24"] by (simp only: d32 [symmetric])
  moreover have "256 * (t div 2 ^ 24) + t div 2 ^ 16 mod 256 = t div 2 ^ 16"
    using split_256 [of "t div 2 ^ 16"] by (simp only: d24 [symmetric])
  moreover have "256 * (t div 2 ^ 16) + t div 2 ^ 8 mod 256 = t div 2 ^ 8"
    using split_256 [of "t div 2 ^ 8"] by (simp only: d16 [symmetric])
  moreover have "256 * (t div 2 ^ 8) + t mod 256 = t"
    using split_256 [of t] by (simp only: d8)
  ultimately show ?thesis by (simp only:)
qed

lemma be_value_6:
  "be_value [a, b, c, d, e, f] =
     256 * (256 * (256 * (256 * (256 * unat a + unat b) + unat c) + unat d) + unat e) + unat f"
  by (simp add: be_value_def)

lemma take_6: "take 6 (x0 # x1 # x2 # x3 # x4 # x5 # xs) = [x0, x1, x2, x3, x4, x5]"
  by simp

lemma be_value_v7:
  assumes "t < 2 ^ 48"
  shows "be_value (take 6 (v7_bytes t src)) = t"
proof -
  have b: "t < 2 ^ 53" using assms by (rule less_trans) simp
  show ?thesis
    unfolding v7_bytes_eq take_6 be_value_6 ts_byte_exact [OF b] low_byte_exact
    by (rule be_digits [OF assms])
qed

lemma be_value_append:
  "be_value (xs @ ys) = be_value xs * 256 ^ length ys + be_value ys"
proof (induction ys arbitrary: xs rule: rev_induct)
  case Nil
  show ?case by (simp add: be_value_def)
next
  case (snoc y ys)
  have "be_value (xs @ ys @ [y]) = 256 * be_value (xs @ ys) + unat y"
    by (simp add: be_value_def)
  also have "\<dots> = 256 * (be_value xs * 256 ^ length ys + be_value ys) + unat y"
    by (simp only: snoc.IH)
  also have "\<dots> = be_value xs * 256 ^ length (ys @ [y]) + be_value (ys @ [y])"
    by (simp add: be_value_def algebra_simps)
  finally show ?case by simp
qed

lemma be_value_less: "be_value ys < 256 ^ length ys"
proof (induction ys rule: rev_induct)
  case Nil
  show ?case by (simp add: be_value_def)
next
  case (snoc y ys)
  have "unat y < 256" using unsigned_less [of y, where ?'a = nat] by simp
  moreover have "be_value (ys @ [y]) = 256 * be_value ys + unat y"
    by (simp add: be_value_def)
  ultimately show ?case using snoc.IH by simp
qed

lemma length_v7_bytes: "length (v7_bytes t src) = 16"
  by (simp add: v7_bytes_eq)

lemma top_48_bits:
  assumes "t < 2 ^ 48"
  shows "be_value (v7_bytes t src) div 2 ^ 80 = t"
proof -
  define hi where "hi = take 6 (v7_bytes t src)"
  define lo where "lo = drop 6 (v7_bytes t src)"
  have len: "length lo = 10" by (simp add: lo_def length_v7_bytes)
  have "be_value (v7_bytes t src) = be_value (hi @ lo)" by (simp add: hi_def lo_def)
  also have "\<dots> = be_value hi * 256 ^ 10 + be_value lo"
    by (simp only: be_value_append len)
  finally have v: "be_value (v7_bytes t src) = t * 2 ^ 80 + be_value lo"
    using be_value_v7 [OF assms, of src] by (simp add: hi_def)
  have "be_value lo < 2 ^ 80" using be_value_less [of lo] by (simp add: len)
  then show ?thesis unfolding v by simp
qed

lemma marker_bits:
  fixes x :: "8 word"
  shows "drop_bit 4 ((x AND 0x0f) OR 0x70) = 7" and "drop_bit 6 ((x AND 0x3f) OR 0x80) = 2"
proof -
  have "unat (drop_bit 4 ((x AND 0x0f) OR 0x70)) = 7"
    using version_nibble(1) [of x] by (simp add: unat_drop_bit_eq drop_bit_eq_div [where ?'a = nat])
  then show "drop_bit 4 ((x AND 0x0f) OR 0x70) = 7"
    by (metis of_nat_unat of_nat_numeral ucast_id)
  have le: "unat (x AND 0x3f) \<le> 63"
    using word_and_le1 [of x "0x3f", THEN word_le_nat_alt [THEN iffD1]] by simp
  have "unat ((x AND 0x3f) OR 0x80) = unat (x AND 0x3f) + 128"
    using or_disjoint_unat [of "0x3f" "0x80" x] by simp
  then have "unat ((x AND 0x3f) OR 0x80) div 64 = 2" using le by simp
  then have "unat (drop_bit 6 ((x AND 0x3f) OR 0x80)) = 2"
    by (simp add: unat_drop_bit_eq drop_bit_eq_div [where ?'a = nat])
  then show "drop_bit 6 ((x AND 0x3f) OR 0x80) = 2"
    by (metis of_nat_unat of_nat_numeral ucast_id)
qed

section \<open>The order of the strings\<close>

lemma of_char_hex_digit:
  assumes "n < 16"
  shows "(of_char (hex_digit n) :: nat) = (if n < 10 then 48 + n else 87 + n)"
proof -
  have "\<forall>n \<in> set [0..<16]. (of_char (hex_digit n) :: nat) = (if n < 10 then 48 + n else 87 + n)"
    unfolding upt_16 by (simp add: hex_digit_def)
  then show ?thesis using assms by simp
qed

lemma hex_digit_less_iff:
  assumes "n < 16" "m < 16"
  shows "hex_digit n < hex_digit m \<longleftrightarrow> n < m"
  using assms by (simp add: less_char_def of_char_hex_digit)

lemma hex_digit_eq_iff:
  assumes "n < 16" "m < 16"
  shows "hex_digit n = hex_digit m \<longleftrightarrow> n = m"
proof
  assume "hex_digit n = hex_digit m"
  then have "(of_char (hex_digit n) :: nat) = of_char (hex_digit m)" by simp
  then show "n = m" using assms by (simp add: of_char_hex_digit split: if_splits)
qed simp

lemma less_div_mod_16:
  fixes x y :: nat
  shows "x < y \<longleftrightarrow> x div 16 < y div 16 \<or> (x div 16 = y div 16 \<and> x mod 16 < y mod 16)"
proof -
  define q r q' r' where "q = x div 16" and "r = x mod 16" and "q' = y div 16" and "r' = y mod 16"
  have x: "x = 16 * q + r" and y: "y = 16 * q' + r'" and r: "r < 16" "r' < 16"
    by (simp_all add: q_def r_def q'_def r'_def)
  show ?thesis
    unfolding q_def [symmetric] r_def [symmetric] q'_def [symmetric] r'_def [symmetric]
    unfolding x y using r by arith
qed

lemma eq_div_mod_16:
  fixes x y :: nat
  shows "x = y \<longleftrightarrow> x div 16 = y div 16 \<and> x mod 16 = y mod 16"
  by (metis div_mult_mod_eq)

lemma byte_hex_block:
  "byte_hex a @ r1 < byte_hex b @ r2 \<longleftrightarrow> unat a < unat b \<or> (unat a = unat b \<and> r1 < r2)"
proof -
  have a: "unat a div 16 < 16" "unat a mod 16 < 16"
    using unsigned_less [of a, where ?'a = nat] by (simp_all add: div_less_iff_less_mult)
  have b: "unat b div 16 < 16" "unat b mod 16 < 16"
    using unsigned_less [of b, where ?'a = nat] by (simp_all add: div_less_iff_less_mult)
  show ?thesis
    unfolding byte_hex_eq less_div_mod_16 [of "unat a" "unat b"] eq_div_mod_16 [of "unat a" "unat b"]
    by (simp add: hex_digit_less_iff hex_digit_eq_iff a b) blast
qed

lemma append_less_same_length:
  fixes xs ys :: "'a :: linorder list"
  assumes "xs < ys" "length xs = length ys"
  shows "xs @ us < ys @ vs"
  using assms unfolding list_less_def by (simp add: lexord_sufI)

lemma append_less_prefix:
  fixes us vs :: "'a :: linorder list"
  assumes "us < vs"
  shows "xs @ us < xs @ vs"
  using assms unfolding list_less_def by (rule lexord_append_leftI)

lemma length_digits256: "length (digits256 k t) = k"
  by (induction k arbitrary: t) simp_all

lemma digits256_less:
  assumes "t1 < t2" "t2 < 256 ^ k"
  shows "digits256 k t1 < digits256 k t2"
  using assms
proof (induction k arbitrary: t1 t2)
  case 0
  then show ?case by simp
next
  case (Suc k)
  have le: "t1 div 256 \<le> t2 div 256" using Suc.prems(1) by (simp add: div_le_mono)
  show ?case
  proof (cases "t1 div 256 < t2 div 256")
    case True
    have "t2 div 256 < 256 ^ k"
      using Suc.prems(2) by (simp add: div_less_iff_less_mult mult.commute)
    then have "digits256 k (t1 div 256) < digits256 k (t2 div 256)"
      using Suc.IH [OF True] by simp
    then show ?thesis
      by (simp add: append_less_same_length length_digits256)
  next
    case False
    then have eq: "t1 div 256 = t2 div 256" using le by simp
    have "t1 mod 256 < t2 mod 256"
      using Suc.prems(1) eq by (metis div_mult_mod_eq nat_add_left_cancel_less)
    then have "[t1 mod 256] < [t2 mod 256]" by simp
    then show ?thesis by (simp add: eq append_less_prefix)
  qed
qed

lemma digits256_6:
  "digits256 6 t =
     [t div 2 ^ 40 mod 256, t div 2 ^ 32 mod 256, t div 2 ^ 24 mod 256, t div 2 ^ 16 mod 256,
      t div 2 ^ 8 mod 256, t mod 256]"
proof -
  have six: "(6 :: nat) = Suc (Suc (Suc (Suc (Suc (Suc 0)))))" by simp
  show ?thesis unfolding six by (simp add: div_mult2_eq [symmetric])
qed

lemma v7_bytes_digits:
  assumes "t < 2 ^ 48"
  shows "map unat (take 6 (v7_bytes t src)) = digits256 6 t"
proof -
  have b: "t < 2 ^ 53" using assms by (rule less_trans) simp
  show ?thesis
    unfolding v7_bytes_eq take_6 digits256_6 list.map ts_byte_exact [OF b] low_byte_exact
    by (rule refl)
qed

lemma ts_prefix_less:
  assumes "map unat as < map unat bs" "length as = 6" "length bs = 6"
  shows "ts_prefix as @ r1 < ts_prefix bs @ r2"
proof -
  obtain a0 a1 a2 a3 a4 a5 where as: "as = [a0, a1, a2, a3, a4, a5]"
    using assms(2) by (auto simp add: length_Suc_conv numeral_eq_Suc)
  obtain b0 b1 b2 b3 b4 b5 where bs: "bs = [b0, b1, b2, b3, b4, b5]"
    using assms(3) by (auto simp add: length_Suc_conv numeral_eq_Suc)
  show ?thesis
    using assms(1) unfolding as bs
    by (auto simp add: byte_hex_block)
qed

lemma generateUuidV7_split:
  "\<exists>r. generateUuidV7 t src = ts_prefix (take 6 (v7_bytes t src)) @ r"
  unfolding generateUuidV7_def v7_bytes_eq take_6 format_uuid_eq by simp


lemma nth_v7_ts:
  assumes "t < 2 ^ 48" "k \<le> 5"
  shows "unat (v7_bytes t src ! k) = t div 2 ^ (8 * (5 - k)) mod 256"
proof -
  have b: "t < 2 ^ 53" using assms(1) by (rule less_trans) simp
  have d: "map unat (take 6 (v7_bytes t src)) = digits256 6 t"
    using assms(1) by (rule v7_bytes_digits)
  have "unat (v7_bytes t src ! k) = map unat (take 6 (v7_bytes t src)) ! k"
    using assms(2) by (simp add: length_v7_bytes)
  also have "\<dots> = digits256 6 t ! k" by (simp only: d)
  also have "\<dots> = t div 2 ^ (8 * (5 - k)) mod 256"
  proof -
    have "k = 0 \<or> k = 1 \<or> k = 2 \<or> k = 3 \<or> k = 4 \<or> k = 5" using assms(2) by arith
    then show ?thesis unfolding digits256_6 by auto
  qed
  finally show ?thesis .
qed

lemma nth_6_8_v7:
  "v7_bytes t src ! 6 = (src 0 AND 0x0f) OR 0x70" "v7_bytes t src ! 8 = (src 2 AND 0x3f) OR 0x80"
  by (simp_all add: v7_bytes_eq)

section \<open>The pattern, position by position\<close>

lemma match_rep_Some_iff:
  "match_rep cs n s = Some r \<longleftrightarrow>
     (\<exists>pre. s = pre @ r \<and> length pre = n \<and> list_all (class_i cs) pre)"
proof (induction cs n s rule: match_rep.induct)
  case (1 cs s)
  show ?case by auto
next
  case (2 cs n)
  show ?case by auto
next
  case (3 cs n c s)
  show ?case
  proof (cases "class_i cs c")
    case True
    have "(\<exists>pre. c # s = pre @ r \<and> length pre = Suc n \<and> list_all (class_i cs) pre) \<longleftrightarrow>
      (\<exists>pre. s = pre @ r \<and> length pre = n \<and> list_all (class_i cs) pre)"
      using True by (auto simp add: length_Suc_conv Cons_eq_append_conv)
    then show ?thesis using True 3 by simp
  next
    case False
    then show ?thesis by (auto simp add: length_Suc_conv Cons_eq_append_conv)
  qed
qed

lemma match_items_expand: "match_items p s \<longleftrightarrow> list_all2 class_i (expand p) s"
proof (induction p arbitrary: s)
  case Nil
  show ?case by auto
next
  case (Cons item p)
  obtain cs n where item: "item = (cs, n)" by (cases item)
  have "match_items ((cs, n) # p) s \<longleftrightarrow> (\<exists>r. match_rep cs n s = Some r \<and> match_items p r)"
    by (cases "match_rep cs n s") simp_all
  also have "\<dots> \<longleftrightarrow>
      (\<exists>pre r. s = pre @ r \<and> length pre = n \<and> list_all (class_i cs) pre \<and>
         list_all2 class_i (expand p) r)"
    by (auto simp add: match_rep_Some_iff Cons.IH)
  also have "\<dots> \<longleftrightarrow> list_all2 class_i (replicate n cs @ expand p) s"
  proof
    assume "\<exists>pre r. s = pre @ r \<and> length pre = n \<and> list_all (class_i cs) pre \<and>
         list_all2 class_i (expand p) r"
    then obtain pre r where s: "s = pre @ r" and n: "length pre = n"
      and a: "list_all (class_i cs) pre" and b: "list_all2 class_i (expand p) r"
      by blast
    have "list_all2 class_i (replicate n cs) pre"
      using a n by (auto simp add: list_all2_conv_all_nth list_all_length)
    then show "list_all2 class_i (replicate n cs @ expand p) s"
      unfolding s using b by (rule list_all2_appendI)
  next
    assume "list_all2 class_i (replicate n cs @ expand p) s"
    then obtain pre r where s: "s = pre @ r" and a: "list_all2 class_i (replicate n cs) pre"
      and b: "list_all2 class_i (expand p) r"
      by (auto simp add: list_all2_append1)
    have "length pre = n" using a by (auto dest: list_all2_lengthD)
    moreover have "list_all (class_i cs) pre"
      using a by (auto simp add: list_all2_conv_all_nth list_all_length)
    ultimately show "\<exists>pre r. s = pre @ r \<and> length pre = n \<and> list_all (class_i cs) pre \<and>
         list_all2 class_i (expand p) r"
      using s b by blast
  qed
  finally show ?case by (simp add: item)
qed

lemma expand_uuidPattern:
  "expand uuidPattern =
    [hex_class, hex_class, hex_class, hex_class, hex_class, hex_class, hex_class, hex_class,
     ''-'', hex_class, hex_class, hex_class, hex_class, ''-'',
     ''1234567'', hex_class, hex_class, hex_class, ''-'',
     ''89ab'', hex_class, hex_class, hex_class, ''-'',
     hex_class, hex_class, hex_class, hex_class, hex_class, hex_class,
     hex_class, hex_class, hex_class, hex_class, hex_class, hex_class]"
  by (simp add: uuidPattern_def numeral_eq_Suc)

lemma mem_code: "c \<in> set cs \<longleftrightarrow> (of_char c :: nat) \<in> set (map of_char cs)"
  by (induction cs) auto

lemma of_char_canonicalize:
  "(of_char (canonicalize c) :: nat) =
     (if 97 \<le> (of_char c :: nat) \<and> (of_char c :: nat) \<le> 122 then of_char c - 32 else of_char c)"
  by (auto simp add: canonicalize_def Let_def)

lemma class_i_code:
  "class_i cs c \<longleftrightarrow>
     ((if 97 \<le> (of_char c :: nat) \<and> (of_char c :: nat) \<le> 122 then of_char c - 32
       else of_char c) :: nat) \<in> set (map of_char (map canonicalize cs))"
  unfolding class_i_def mem_code [of "canonicalize c"] of_char_canonicalize by (rule refl)

lemma canon_hex: "map of_char (map canonicalize hex_class) =
   [48, 49, 50, 51, 52, 53, 54, 55, 56, 57, 65, 66, 67, 68, 69, 70 :: nat]"
  by (simp add: hex_class_def canonicalize_def)

lemma is_hex_code:
  "is_hex c \<longleftrightarrow> (of_char c :: nat) \<in> set [48, 49, 50, 51, 52, 53, 54, 55, 56, 57,
     97, 98, 99, 100, 101, 102, 65, 66, 67, 68, 69, 70]"
  unfolding is_hex_def mem_code [of c] by simp

lemma class_i_hex_iff: "class_i hex_class c \<longleftrightarrow> is_hex c"
  unfolding class_i_code canon_hex is_hex_code
  by (cases "97 \<le> (of_char c :: nat) \<and> (of_char c :: nat) \<le> 122") auto

lemma class_i_dash_iff: "class_i ''-'' c \<longleftrightarrow> c = CHR ''-''"
proof -
  have "c = CHR ''-'' \<longleftrightarrow> (of_char c :: nat) = 45"
    using mem_code [of c "''-''"] by simp
  then show ?thesis
    unfolding class_i_code by (auto simp add: canonicalize_def)
qed

lemma hex_value_code:
  "hex_value c =
     (if 48 \<le> (of_char c :: nat) \<and> (of_char c :: nat) \<le> 57 then of_char c - 48
      else if 97 \<le> (of_char c :: nat) \<and> (of_char c :: nat) \<le> 102 then of_char c - 87
      else of_char c - 55)"
  by (simp add: hex_value_def Let_def)

lemma class_i_version_iff:
  "class_i ''1234567'' c \<longleftrightarrow> is_hex c \<and> hex_value c \<in> {1..7}"
proof -
  have l: "map of_char (map canonicalize ''1234567'') = [49, 50, 51, 52, 53, 54, 55 :: nat]"
    by (simp add: canonicalize_def)
  show ?thesis
    unfolding class_i_code l is_hex_code hex_value_code
    by (cases "97 \<le> (of_char c :: nat) \<and> (of_char c :: nat) \<le> 122") auto
qed

lemma class_i_variant_iff:
  "class_i ''89ab'' c \<longleftrightarrow> is_hex c \<and> hex_value c div 4 = 2"
proof -
  have l: "map of_char (map canonicalize ''89ab'') = [56, 57, 65, 66 :: nat]"
    by (simp add: canonicalize_def)
  show ?thesis
    unfolding class_i_code l is_hex_code hex_value_code
    by (cases "97 \<le> (of_char c :: nat) \<and> (of_char c :: nat) \<le> 122") auto
qed

lemma all_less_36: "(\<forall>i<36. P i) \<longleftrightarrow> (\<forall>i \<in> set [0..<36]. P i)"
  by auto

lemma pattern_test_positions:
  "pattern_test s \<longleftrightarrow> length s = 36 \<and> (\<forall>i<36. class_i (expand uuidPattern ! i) (s ! i))"
  unfolding pattern_test_def match_items_expand list_all2_conv_all_nth
  by (auto simp add: expand_uuidPattern)

lemma pattern_test_grammar: "pattern_test s \<longleftrightarrow> canonical_grammar s"
  unfolding pattern_test_positions canonical_grammar_def ball_upt_36 all_less_36 upt_36
    expand_uuidPattern
  by (simp add: class_i_hex_iff class_i_dash_iff class_i_version_iff class_i_variant_iff) blast

section \<open>Worked calls\<close>

lemma iterations_three_halves: "iterations (3 / 2) = 2"
proof -
  have "\<lceil>3 / 2 :: rat\<rceil> = 2" by (rule ceiling_unique) simp_all
  then show ?thesis by (simp add: iterations_def)
qed

lemma iterations_1: "iterations 1 = 1"
  by (simp add: iterations_def)

lemma upt_2: "[0..<2] = [0, 1]"
  by (simp add: upt_rec)

lemma loop_uuid_v4_zero: "loop_uuid V4 env_zero i = ''00000000-0000-4000-8000-000000000000''"
  by (simp add: loop_uuid_def env_zero_def eval_v4_zero)

lemma generate_v4_default:
  "generate_uuid V4 1 env_zero [] =
     ([''00000000-0000-4000-8000-000000000000''],
      [\<lparr>uuid = ''00000000-0000-4000-8000-000000000000'', version = V4,
        createdAt = 1730000000000\<rparr>])"
  by (simp add: generate_uuid_eq iterations_1 loop_entry_def loop_uuid_v4_zero slice_last_def
      env_zero_def)

lemma generate_v4_three_halves:
  "generate_uuid V4 (3 / 2) env_zero [] =
     ([''00000000-0000-4000-8000-000000000000'', ''00000000-0000-4000-8000-000000000000''],
      [\<lparr>uuid = ''00000000-0000-4000-8000-000000000000'', version = V4,
        createdAt = 1730000000000\<rparr>,
       \<lparr>uuid = ''00000000-0000-4000-8000-000000000000'', version = V4,
        createdAt = 1730000000000\<rparr>])"
  by (simp add: generate_uuid_eq iterations_three_halves upt_2 loop_entry_def loop_uuid_v4_zero
      slice_last_def env_zero_def)

section \<open>The claims\<close>

text \<open>
  C1 fails on the code. With two sessions \<open>a\<close> and \<open>b\<close> and an empty history, a
  \<open>generate_uuid\<close> call through session \<open>a\<close> changes what session \<open>b\<close> reads at
  \<open>uuid://history\<close>: before the call \<open>b\<close> reads no record, after it \<open>b\<close> reads the record
  generated for \<open>a\<close>. Every server instance works on the one array of the module.
\<close>

theorem history_shared_across_sessions:
  "fst (post_mcp (Some ''b'') ReadHistory [] env_zero two_sessions) =
     History \<lparr>totalCount = 0, history = []\<rparr> \<and>
   fst (post_mcp (Some ''b'') ReadHistory [] env_zero
         (snd (post_mcp (Some ''a'') (CallGenerate no_args) [] env_zero two_sessions))) =
     History \<lparr>totalCount = 1,
       history = [\<lparr>uuid = ''00000000-0000-4000-8000-000000000000'', version = V4,
                   createdAt = 1730000000000\<rparr>]\<rparr>"
  by (simp add: post_mcp_def two_sessions_def dispatch_def no_args_def generate_v4_default
      read_history_def slice_last_def)

text \<open>
  C2. After a call of \<open>generate_uuid\<close>, whatever the array held before, it holds at most
  100 records, and they are the last 100 of the old records followed by the pushed
  ones: the oldest go first. After any sequence of calls on the empty array the
  array is the last 100 of everything pushed; when 150 records have been pushed in
  total, \<open>slice(-20)\<close> of the resource is records 131 to 150, in the order of
  insertion.
\<close>

theorem history_bounded_fifo:
  "length (snd (generate_uuid ver count env hist)) \<le> 100 \<and>
   snd (generate_uuid ver count env hist) = slice_last 100 (hist @ pushed (ver, count, env)) \<and>
   run_calls calls [] = slice_last 100 (concat (map pushed calls)) \<and>
   (length (concat (map pushed calls)) = 150 \<longrightarrow>
      history (read_history (run_calls calls [])) = drop 130 (concat (map pushed calls)))"
proof -
  have one: "snd (generate_uuid ver count env hist) = slice_last 100 (hist @ pushed (ver, count, env))"
    by (simp add: generate_uuid_eq pushed_eq del: pushed.simps)
  have run: "run_calls calls [] = slice_last 100 (concat (map pushed calls))"
    using run_calls_eq [of "[]" calls] by simp
  have "history (read_history (run_calls calls [])) = drop 130 (concat (map pushed calls))"
    if "length (concat (map pushed calls)) = 150"
    using that by (simp add: run read_history_def slice_last_def)
  then show ?thesis
    using one run by (simp add: length_slice_last)
qed

theorem history_bounded_fifo_witness:
  "length (concat (map pushed
      [ten_v4, ten_v7, ten_v4, ten_v7, ten_v4, ten_v7, ten_v4, ten_v7, ten_v4, ten_v7,
       ten_v4, ten_v7, ten_v4, ten_v7, ten_v4])) = 150 \<and>
   history (read_history (run_calls
      [ten_v4, ten_v7, ten_v4, ten_v7, ten_v4, ten_v7, ten_v4, ten_v7, ten_v4, ten_v7,
       ten_v4, ten_v7, ten_v4, ten_v7, ten_v4] [])) =
   drop 130 (concat (map pushed
      [ten_v4, ten_v7, ten_v4, ten_v7, ten_v4, ten_v7, ten_v4, ten_v7, ten_v4, ten_v7,
       ten_v4, ten_v7, ten_v4, ten_v7, ten_v4]))"
proof -
  have len: "length (concat (map pushed
      [ten_v4, ten_v7, ten_v4, ten_v7, ten_v4, ten_v7, ten_v4, ten_v7, ten_v4, ten_v7,
       ten_v4, ten_v7, ten_v4, ten_v7, ten_v4])) = 150"
    by (simp add: ten_v4_def ten_v7_def length_pushed iterations_10 del: pushed.simps)
  show ?thesis
    using len history_bounded_fifo [where calls =
      "[ten_v4, ten_v7, ten_v4, ten_v7, ten_v4, ten_v7, ten_v4, ten_v7, ten_v4, ten_v7,
        ten_v4, ten_v7, ten_v4, ten_v7, ten_v4]"]
    by blast
qed

text \<open>
  C3. Round trip: every identifier that \<open>generate_uuid\<close> returns, for either version and a
  count between 1 and 10, is accepted by \<open>validate_uuid\<close>, and the version reported is
  the one asked for (\<open>v4\<close> or \<open>v7\<close>). The call returns at least one identifier, so the
  statement is about something.
\<close>

theorem generated_uuid_validates:
  assumes "1 \<le> count" and "count \<le> 10"
  shows "fst (generate_uuid ver count env hist) \<noteq> [] \<and>
    (\<forall>u \<in> set (fst (generate_uuid ver count env hist)).
       validate_uuid u = \<lparr>isValid = True, detectedVersion = Some (version_name ver)\<rparr>)"
  using iterations_pos [OF assms(1)]
  by (auto simp add: generate_uuid_eq loop_uuid_validates)

theorem generated_uuid_validates_witness:
  "(1 :: rat) \<le> 1 \<and> (1 :: rat) \<le> 10 \<and>
   validate_uuid (hd (fst (generate_uuid V7 1 env_ones []))) =
     \<lparr>isValid = True, detectedVersion = Some ''v7''\<rparr>"
  using generated_uuid_validates [where count = 1 and ver = V7 and env = env_ones and hist = "[]"]
  by simp

text \<open>
  C4. \<open>validate_uuid\<close> returns a verdict for every string, and the verdict is true
  exactly for the strings of the canonical grammar: 36 characters, hyphens at
  positions 8, 13, 18 and 23, hex digits of either case elsewhere, a version nibble
  from 1 to 7 and a variant nibble whose top two bits are binary 10. Every other
  string gets \<open>isValid = False\<close> and no version; the handler has no failing branch.
\<close>

theorem validate_uuid_grammar:
  "validate_uuid s =
     \<lparr>isValid = canonical_grammar s,
      detectedVersion = (if canonical_grammar s then Some (''v'' @ [s ! 14]) else None)\<rparr>"
proof (cases "canonical_grammar s")
  case True
  then have "length s = 36" by (simp add: canonical_grammar_def)
  then show ?thesis using True by (simp add: validate_uuid_def pattern_test_grammar)
next
  case False
  then show ?thesis by (simp add: validate_uuid_def pattern_test_grammar)
qed

theorem validate_uuid_grammar_witness:
  "canonical_grammar ''0192CC09-1400-78d9-Aafb-0c1d2e3f5061'' \<and>
   validate_uuid ''0192CC09-1400-78d9-Aafb-0c1d2e3f5061'' =
     \<lparr>isValid = True, detectedVersion = Some ''v7''\<rparr> \<and>
   \<not> canonical_grammar ''0192cc09-1400-88d9-aafb-0c1d2e3f5061'' \<and>
   validate_uuid ''0192cc09-1400-88d9-aafb-0c1d2e3f5061'' =
     \<lparr>isValid = False, detectedVersion = None\<rparr> \<and>
   validate_uuid [] = \<lparr>isValid = False, detectedVersion = None\<rparr>"
proof -
  have a: "canonical_grammar ''0192CC09-1400-78d9-Aafb-0c1d2e3f5061''"
    unfolding canonical_grammar_def ball_upt_36 upt_36
    by (simp add: is_hex_def hex_value_def)
  have b: "\<not> canonical_grammar ''0192cc09-1400-88d9-aafb-0c1d2e3f5061''"
    unfolding canonical_grammar_def by (simp add: hex_value_def)
  have c: "\<not> canonical_grammar []"
    unfolding canonical_grammar_def by simp
  show ?thesis
    using a b c
      validate_uuid_grammar [of "''0192CC09-1400-78d9-Aafb-0c1d2e3f5061''"]
      validate_uuid_grammar [of "''0192cc09-1400-88d9-aafb-0c1d2e3f5061''"]
      validate_uuid_grammar [of "[]"]
    by simp
qed

text \<open>
  C5. For a count \<open>k\<close> from 1 to 10 and either version, a call returns exactly \<open>k\<close>
  identifiers, each in the canonical lower-case 8-4-4-4-12 form, and pushes exactly \<open>k\<close>
  records: the array it leaves is the old one followed by the \<open>k\<close> new records, cut
  to its last 100, so its last \<open>k\<close> records are the new ones. Record \<open>i\<close> carries
  identifier \<open>i\<close>, the version asked for, and the clock read at its push.
\<close>

theorem generate_uuid_count:
  assumes "1 \<le> k" and "k \<le> 10"
  shows "case generate_uuid ver (of_nat k) env hist of
    (uuids, hist') \<Rightarrow>
      length uuids = k \<and>
      (\<forall>u \<in> set uuids. canonical_format u) \<and>
      hist' = slice_last 100 (hist @
        map (\<lambda>i. \<lparr>uuid = uuids ! i, version = ver, createdAt = pushedAt (env i)\<rparr>) [0..<k]) \<and>
      slice_last k hist' =
        map (\<lambda>i. \<lparr>uuid = uuids ! i, version = ver, createdAt = pushedAt (env i)\<rparr>) [0..<k]"
proof -
  define uuids where "uuids = map (loop_uuid ver env) [0..<k]"
  define new where "new = map (loop_entry ver env) [0..<k]"
  have new: "map (\<lambda>i. \<lparr>uuid = uuids ! i, version = ver, createdAt = pushedAt (env i)\<rparr>) [0..<k] = new"
    by (simp add: uuids_def new_def loop_entry_def)
  have len: "length new = k" by (simp add: new_def)
  have g: "generate_uuid ver (of_nat k) env hist = (uuids, slice_last 100 (hist @ new))"
    by (simp add: generate_uuid_eq iterations_of_nat uuids_def new_def)
  have tail: "slice_last k (slice_last 100 (hist @ new)) = new"
    using slice_last_keeps_tail [of new 100 hist] assms(2) len by simp
  have canon: "\<forall>u \<in> set uuids. canonical_format u"
    by (auto simp add: uuids_def loop_uuid_canonical)
  show ?thesis
    unfolding g using canon tail by (simp add: new) (simp add: uuids_def)
qed

theorem generate_uuid_count_witness:
  "(1 :: nat) \<le> 3 \<and> (3 :: nat) \<le> 10 \<and>
   length (fst (generate_uuid V4 (of_nat 3) env_zero [])) = 3 \<and>
   length (snd (generate_uuid V4 (of_nat 3) env_zero [])) = 3"
  using generate_uuid_count [where k = 3 and ver = V4 and env = env_zero and hist = "[]"]
  by (simp add: slice_last_def split: prod.splits)

text \<open>
  C6. For a timestamp \<open>t\<close> below \<open>2 ^ 48\<close> and any random bytes, the sixteen bytes of a
  time-ordered identifier, read as one 128-bit number, have \<open>t\<close> in their top 48 bits;
  bytes 0 to 5 are \<open>t\<close> most significant byte first; the high four bits of byte 6 are
  the version 7 and the high two bits of byte 8 are the variant, binary 10. The
  string returned is the rendering of these bytes.
\<close>

theorem v7_layout:
  assumes "t < 2 ^ 48"
  shows "length (v7_bytes t src) = 16 \<and>
    be_value (v7_bytes t src) div 2 ^ 80 = t \<and>
    be_value (take 6 (v7_bytes t src)) = t \<and>
    drop_bit 4 (v7_bytes t src ! 6) = 7 \<and>
    drop_bit 6 (v7_bytes t src ! 8) = 2 \<and>
    generateUuidV7 t src = format_uuid (v7_bytes t src)"
  using top_48_bits [OF assms] be_value_v7 [OF assms]
  by (simp add: length_v7_bytes nth_6_8_v7 marker_bits generateUuidV7_def)

theorem v7_layout_witness:
  "(1730000000000 :: nat) < 2 ^ 48 \<and>
   be_value (take 6 (v7_bytes 1730000000000 src_ones)) = 1730000000000 \<and>
   drop_bit 4 (v7_bytes 1730000000000 src_ones ! 6) = 7 \<and>
   drop_bit 6 (v7_bytes 1730000000000 src_ones ! 8) = 2 \<and>
   generateUuidV7 1730000000000 src_ones = ''0192cc09-1400-7fff-bfff-ffffffffffff''"
proof -
  have b: "(1730000000000 :: nat) < 2 ^ 48" by simp
  show ?thesis
    using b v7_layout [OF b, of src_ones] eval_v7_ones by simp
qed

text \<open>
  C7, as the data model of the spec qualifies it. Time-ordered identifiers generated
  at strictly increasing milliseconds below \<open>2 ^ 48\<close> have strictly increasing
  canonical strings, whatever the random bytes of either. (Within one millisecond
  the random bytes decide the order: see the counterexample.)
\<close>

theorem v7_order_distinct_ms:
  assumes "t1 < t2" and "t2 < 2 ^ 48"
  shows "generateUuidV7 t1 src1 < generateUuidV7 t2 src2"
proof -
  have t1: "t1 < 2 ^ 48" using assms by simp
  have t2: "t2 < 256 ^ 6" using assms(2) by simp
  obtain r1 where r1: "generateUuidV7 t1 src1 = ts_prefix (take 6 (v7_bytes t1 src1)) @ r1"
    using generateUuidV7_split by blast
  obtain r2 where r2: "generateUuidV7 t2 src2 = ts_prefix (take 6 (v7_bytes t2 src2)) @ r2"
    using generateUuidV7_split by blast
  have "map unat (take 6 (v7_bytes t1 src1)) < map unat (take 6 (v7_bytes t2 src2))"
    unfolding v7_bytes_digits [OF t1] v7_bytes_digits [OF assms(2)]
    using assms(1) t2 by (rule digits256_less)
  then show ?thesis
    unfolding r1 r2 by (rule ts_prefix_less) (simp_all add: length_v7_bytes)
qed

theorem v7_order_distinct_ms_witness:
  "(1730000000000 :: nat) < 1730000000001 \<and> (1730000000001 :: nat) < 2 ^ 48 \<and>
   generateUuidV7 1730000000000 src_ones < generateUuidV7 1730000000001 src_zero"
proof -
  have a: "(1730000000000 :: nat) < 1730000000001" and b: "(1730000000001 :: nat) < 2 ^ 48"
    by simp_all
  show ?thesis
    using a b v7_order_distinct_ms [OF a b, of src_ones src_zero] by simp
qed

text \<open>
  C7 as the testable property states it, with non-decreasing milliseconds, fails:
  two identifiers of the same millisecond, the first with random bytes all \<open>0xff\<close> and
  the second with random bytes all \<open>0\<close>, come out in decreasing order.
\<close>

theorem v7_order_same_ms_counterexample:
  "(1730000000000 :: nat) \<le> 1730000000000 \<and> (1730000000000 :: nat) < 2 ^ 48 \<and>
   \<not> generateUuidV7 1730000000000 src_ones \<le> generateUuidV7 1730000000000 src_zero"
  unfolding eval_v7_ones eval_v7_zero by simp

text \<open>
  C8. The claim has a count that is not an integer refused with \<open>InvalidParams\<close>
  before the handler runs, as it has the counts 0 and 11. The code refuses 0 and 11
  and leaves the history as it was, but it takes a count of 1.5: the declared schema
  is a number from 1 to 10 without \<open>int()\<close>, the handler runs, its loop \<open>i < count\<close>
  makes two rounds, and the call returns two identifiers and pushes two records. A
  call without \<open>count\<close> runs with count 1.
\<close>

theorem non_integer_count_accepted:
  "parse_count (count_three_halves ''count'') = Inr (3 / 2) \<and>
   generate_uuid V4 (3 / 2) env_zero [] =
     ([''00000000-0000-4000-8000-000000000000'', ''00000000-0000-4000-8000-000000000000''],
      [\<lparr>uuid = ''00000000-0000-4000-8000-000000000000'', version = V4,
        createdAt = 1730000000000\<rparr>,
       \<lparr>uuid = ''00000000-0000-4000-8000-000000000000'', version = V4,
        createdAt = 1730000000000\<rparr>]) \<and>
   dispatch (CallGenerate count_three_halves) env_zero [] =
     (Generated [''00000000-0000-4000-8000-000000000000'',
                 ''00000000-0000-4000-8000-000000000000''],
      [\<lparr>uuid = ''00000000-0000-4000-8000-000000000000'', version = V4,
        createdAt = 1730000000000\<rparr>,
       \<lparr>uuid = ''00000000-0000-4000-8000-000000000000'', version = V4,
        createdAt = 1730000000000\<rparr>]) \<and>
   dispatch (CallGenerate count_zero) env_zero [] = (RpcError InvalidParams, []) \<and>
   dispatch (CallGenerate count_eleven) env_zero [] = (RpcError InvalidParams, []) \<and>
   dispatch (CallGenerate no_args) env_zero [] =
     (Generated [''00000000-0000-4000-8000-000000000000''],
      [\<lparr>uuid = ''00000000-0000-4000-8000-000000000000'', version = V4,
        createdAt = 1730000000000\<rparr>])"
proof -
  have "parse_count (count_three_halves ''count'') = Inr (3 / 2)"
    by (simp add: count_three_halves_def)
  moreover have "dispatch (CallGenerate count_three_halves) env_zero [] =
     (Generated [''00000000-0000-4000-8000-000000000000'',
                 ''00000000-0000-4000-8000-000000000000''],
      [\<lparr>uuid = ''00000000-0000-4000-8000-000000000000'', version = V4,
        createdAt = 1730000000000\<rparr>,
       \<lparr>uuid = ''00000000-0000-4000-8000-000000000000'', version = V4,
        createdAt = 1730000000000\<rparr>])"
    by (simp add: dispatch_def count_three_halves_def generate_v4_three_halves)
  moreover have "dispatch (CallGenerate count_zero) env_zero [] = (RpcError InvalidParams, [])"
    by (simp add: dispatch_def count_zero_def)
  moreover have "dispatch (CallGenerate count_eleven) env_zero [] = (RpcError InvalidParams, [])"
    by (simp add: dispatch_def count_eleven_def)
  moreover have "dispatch (CallGenerate no_args) env_zero [] =
     (Generated [''00000000-0000-4000-8000-000000000000''],
      [\<lparr>uuid = ''00000000-0000-4000-8000-000000000000'', version = V4,
        createdAt = 1730000000000\<rparr>])"
    by (simp add: dispatch_def no_args_def generate_v4_default)
  ultimately show ?thesis
    by (simp only: generate_v4_three_halves simp_thms)
qed

text \<open>
  C9. A POST without a session token that is not the handshake, and any POST whose
  token is not in the session map, is answered with HTTP status 400 and JSON-RPC code
  -32000, and leaves the whole state, the session map with it, as it was. The map
  changes only when a handshake arrives without a token: then exactly the fresh id
  is added. (A header with an empty value is no token: the code tests it for
  truthiness.)
\<close>

theorem post_invalid_session:
  "((\<not> truthy sid \<and> b \<noteq> Initialize) \<or> (\<exists>tok. sid = Some tok \<and> tok \<noteq> [] \<and> tok \<notin> dom (sessions p))
      \<longrightarrow> post_mcp sid b fresh env p = (HttpError 400 (error_code InvalidSession), p)) \<and>
   (sessions (snd (post_mcp sid b fresh env p)) \<noteq> sessions p
      \<longrightarrow> \<not> truthy sid \<and> b = Initialize \<and>
          post_mcp sid b fresh env p =
            (Minted fresh,
             p\<lparr>sessions := (sessions p)(fresh \<mapsto> instances p), instances := Suc (instances p)\<rparr>))"
proof -
  have rej: "post_mcp sid b fresh env p = (HttpError 400 (error_code InvalidSession), p)"
    if "\<not> known sid p" "truthy sid \<or> b \<noteq> Initialize"
    using that by (auto simp add: post_mcp_def)
  have same: "sessions (snd (post_mcp sid b fresh env p)) = sessions p" if "known sid p"
    using that by (simp add: post_mcp_def split: prod.splits)
  have a: "post_mcp sid b fresh env p = (HttpError 400 (error_code InvalidSession), p)"
    if "\<not> truthy sid \<and> b \<noteq> Initialize"
  proof -
    have "\<not> known sid p" using that by (cases sid) auto
    then show ?thesis using that by (intro rej) auto
  qed
  have b: "post_mcp sid b fresh env p = (HttpError 400 (error_code InvalidSession), p)"
    if "\<exists>tok. sid = Some tok \<and> tok \<noteq> [] \<and> tok \<notin> dom (sessions p)"
  proof -
    have "\<not> known sid p" "truthy sid" using that by auto
    then show ?thesis by (intro rej) auto
  qed
  have c: "\<not> truthy sid \<and> b = Initialize \<and>
          post_mcp sid b fresh env p =
            (Minted fresh,
             p\<lparr>sessions := (sessions p)(fresh \<mapsto> instances p), instances := Suc (instances p)\<rparr>)"
    if ch: "sessions (snd (post_mcp sid b fresh env p)) \<noteq> sessions p"
  proof -
    have nk: "\<not> known sid p" using same ch by blast
    have "\<not> (truthy sid \<or> b \<noteq> Initialize)" using rej [OF nk] ch by auto
    then show ?thesis using nk by (simp add: post_mcp_def)
  qed
  show ?thesis using a b c by blast
qed

theorem post_invalid_session_witness:
  "post_mcp (Some ''zz'') ReadHistory ''new'' env_zero two_sessions =
     (HttpError 400 (- 32000), two_sessions) \<and>
   post_mcp None ReadHistory ''new'' env_zero two_sessions =
     (HttpError 400 (- 32000), two_sessions) \<and>
   post_mcp (Some ''zz'') Initialize ''new'' env_zero two_sessions =
     (HttpError 400 (- 32000), two_sessions) \<and>
   sessions (snd (post_mcp None Initialize ''new'' env_zero two_sessions)) =
     [''a'' \<mapsto> 0, ''b'' \<mapsto> 1, ''new'' \<mapsto> 2]"
proof -
  have d: "''zz'' \<notin> dom (sessions two_sessions)" by (simp add: two_sessions_def)
  have n: "sessions (snd (post_mcp None Initialize ''new'' env_zero two_sessions))
      \<noteq> sessions two_sessions"
    by (simp add: post_mcp_def two_sessions_def fun_upd_def fun_eq_iff)
  show ?thesis
    using d n
      post_invalid_session [of "Some ''zz''" ReadHistory two_sessions "''new''" env_zero]
      post_invalid_session [of None ReadHistory two_sessions "''new''" env_zero]
      post_invalid_session [of "Some ''zz''" Initialize two_sessions "''new''" env_zero]
      post_invalid_session [of None Initialize two_sessions "''new''" env_zero]
    by (simp add: two_sessions_def)
qed

text \<open>
  C10. For a timestamp \<open>t\<close> below \<open>2 ^ 48\<close> the floating-point quotients \<open>t / 2 ** n\<close> are
  exact, and the six timestamp bytes that \<open>generateUuidV7\<close> computes from them by
  \<open>& 0xff\<close> are the base-256 digits of \<open>t\<close>, most significant first: byte \<open>k\<close> is
  \<open>floor (t / 2 ^ (8 * (5 - k))) mod 256\<close> for \<open>k\<close> from 0 to 5.
\<close>

theorem timestamp_bytes_exact:
  assumes "t < 2 ^ 48"
  shows "(\<forall>n. js_div t (2 ^ n) = of_nat t / 2 ^ n) \<and>
    (\<forall>k \<in> {0..5}. unat (v7_bytes t src ! k) = t div 2 ^ (8 * (5 - k)) mod 256)"
proof -
  have b: "t < 2 ^ 53" using assms by (rule less_trans) simp
  show ?thesis
    using js_div_pow2_exact [OF b] nth_v7_ts [OF assms] by simp
qed

theorem timestamp_bytes_exact_witness:
  "(1730000000000 :: nat) < 2 ^ 48 \<and>
   js_div 1730000000000 (2 ^ 40) = 1730000000000 / 2 ^ 40 \<and>
   unat (v7_bytes 1730000000000 src_zero ! 1) = 146"
proof -
  have b: "(1730000000000 :: nat) < 2 ^ 48" by simp
  note w = timestamp_bytes_exact [OF b, of src_zero]
  from w have q: "js_div 1730000000000 (2 ^ n) = of_nat 1730000000000 / 2 ^ n" for n
    by blast
  from w have d: "unat (v7_bytes 1730000000000 src_zero ! 1) =
      1730000000000 div 2 ^ (8 * (5 - 1)) mod 256"
    by simp
  have "js_div 1730000000000 (2 ^ 40) = 1730000000000 / 2 ^ 40"
    using q [of 40] by (simp only: of_nat_numeral)
  moreover have "unat (v7_bytes 1730000000000 src_zero ! 1) = 146"
    unfolding d by simp
  ultimately show ?thesis using b by blast
qed

end
